theory Spec2Isabelle
  imports Main "HOL-Library.Sublist"
begin

section \<open>Python string operations used by the program\<close>

text \<open>
  A Python \<open>str\<close> is modelled as a \<open>string\<close>, a list of 8-bit characters read as the code
  points below 256. The operations below are the ones the program calls on its texts:
  \<open>str.strip()\<close>, \<open>str.lower()\<close>, the operator \<open>in\<close>, \<open>str.split(sep)\<close>,
  \<open>str.replace(old, new)\<close> and \<open>sep.join(xs)\<close>.
\<close>

definition isspace :: "char \<Rightarrow> bool" where
  \<comment> \<open>The code points below 256 that Python counts as white space:
      TAB, LF, VT, FF, CR, FS, GS, RS, US, SPACE, NEL and NBSP.\<close>
  "isspace c \<longleftrightarrow> (of_char c :: nat) \<in> {9, 10, 11, 12, 13, 28, 29, 30, 31, 32, 133, 160}"

definition strip :: "string \<Rightarrow> string" where
  \<comment> \<open>\<open>s.strip()\<close>: white space removed from both ends.\<close>
  "strip s = rev (dropWhile isspace (rev (dropWhile isspace s)))"

definition lower_char :: "char \<Rightarrow> char" where
  \<comment> \<open>Lower case of one code point below 256: A..Z and the accented capitals
      U+00C0..U+00DE (the multiplication sign U+00D7 apart) move up by 32.\<close>
  "lower_char c =
     (let n = (of_char c :: nat)
      in if (65 \<le> n \<and> n \<le> 90) \<or> (192 \<le> n \<and> n \<le> 222 \<and> n \<noteq> 215)
         then char_of (n + 32) else c)"

definition lower :: "string \<Rightarrow> string" where
  \<comment> \<open>\<open>s.lower()\<close>\<close>
  "lower s = map lower_char s"

fun str_in :: "string \<Rightarrow> string \<Rightarrow> bool" where
  \<comment> \<open>\<open>sub in s\<close>: \<open>sub\<close> starts at some position of \<open>s\<close>.\<close>
  "str_in sub [] = (sub = [])"
| "str_in sub (c # cs) = (prefix sub (c # cs) \<or> str_in sub cs)"

function str_split :: "string \<Rightarrow> string \<Rightarrow> string list" where
  \<comment> \<open>\<open>s.split(sep)\<close> for a non-empty \<open>sep\<close>: the text is scanned from the left, every
      occurrence found ends a piece and the scan goes on behind it. The program passes the
      literals of two separators only; Python's ValueError on an empty separator cannot
      arise there.\<close>
  "str_split sep s =
     (if sep \<noteq> [] \<and> prefix sep s then [] # str_split sep (drop (length sep) s)
      else case s of
             [] \<Rightarrow> [[]]
           | c # cs \<Rightarrow> (case str_split sep cs of
                          [] \<Rightarrow> [[c]]
                        | p # ps \<Rightarrow> (c # p) # ps))"
  by pat_completeness auto
termination
  by (relation "measure (\<lambda>(sep, s). length s)") (auto simp: prefix_def)

declare str_split.simps [simp del]

function str_replace :: "string \<Rightarrow> string \<Rightarrow> string \<Rightarrow> string" where
  \<comment> \<open>\<open>s.replace(old, new)\<close> for a non-empty \<open>old\<close>: every occurrence found by the scan
      from the left is replaced, and the scan goes on behind it.\<close>
  "str_replace old new s =
     (if old \<noteq> [] \<and> prefix old s then new @ str_replace old new (drop (length old) s)
      else case s of
             [] \<Rightarrow> []
           | c # cs \<Rightarrow> c # str_replace old new cs)"
  by pat_completeness auto
termination
  by (relation "measure (\<lambda>(old, new, s). length s)") (auto simp: prefix_def)

declare str_replace.simps [simp del]

fun str_join :: "string \<Rightarrow> string list \<Rightarrow> string" where
  \<comment> \<open>\<open>sep.join(xs)\<close>\<close>
  "str_join sep [] = []"
| "str_join sep [x] = x"
| "str_join sep (x # y # ys) = x @ sep @ str_join sep (y # ys)"

section \<open>The chunker (chunker.py)\<close>

text \<open>
  The tokenizer is the library call \<open>len(encoding.encode(s))\<close>; it is a parameter
  \<open>tok\<close> of the model, the number of tokens of a text. \<open>max_tokens\<close> is a Python int.
\<close>

definition para_sep :: string where
  \<comment> \<open>The literal of two line feeds.\<close>
  "para_sep = [CHR 0x0A, CHR 0x0A]"

fun chunk_loop :: "(string \<Rightarrow> nat) \<Rightarrow> int \<Rightarrow> string list \<Rightarrow> string list \<Rightarrow> string
    \<Rightarrow> string list \<times> string" where
  \<comment> \<open>The \<open>for para in paragraphs\<close> loop, on the state \<open>(chunks, current_chunk)\<close>.\<close>
  "chunk_loop tok max_tokens [] chunks current_chunk = (chunks, current_chunk)"
| "chunk_loop tok max_tokens (para # paras) chunks current_chunk =
     (let candidate = current_chunk @ para_sep @ para;
          num_tokens = int (tok candidate)
      in if num_tokens > max_tokens
         then chunk_loop tok max_tokens paras
                (if current_chunk \<noteq> [] then chunks @ [strip current_chunk] else chunks) para
         else chunk_loop tok max_tokens paras chunks candidate)"

definition split_text_into_chunks :: "(string \<Rightarrow> nat) \<Rightarrow> string \<Rightarrow> int \<Rightarrow> string list" where
  "split_text_into_chunks tok text max_tokens =
     (let paragraphs = str_split para_sep text;
          (chunks, current_chunk) = chunk_loop tok max_tokens paragraphs [] []
      in if current_chunk \<noteq> [] then chunks @ [strip current_chunk] else chunks)"

section \<open>The file system\<close>

text \<open>
  The program keeps its indexes in the file system, where an index directory, the mirror
  file beside it and the directory \<open>faiss_store\<close> above them share one name space. The
  model is a tree of nodes under the working directory, keyed by the list of names that
  leads to a node. A path string is read as \<open>pathlib\<close> reads it: split at \<open>/\<close>, with
  empty and \<open>.\<close> components dropped. The operating system resolves a path from the
  working directory, one component at a time, each step from a directory, with \<open>..\<close>
  stepping back to the parent. There are no symbolic links and no permissions, nothing
  else changes the tree, and the working directory is the root of the tree (so \<open>..\<close>
  stays there, and an absolute path is read like a relative one).

  The two files of a saved index are nodes of their own kinds, carrying the chunk texts
  saved; a handle loaded from them is that list of texts, held in memory (the embedding
  vectors are left out). Every failure of a file operation is Python's \<open>OSError\<close>
  (NotADirectoryError, FileExistsError, IsADirectoryError and FileNotFoundError are
  subclasses of it).
\<close>

datatype node = Dir | TextFile string | FaissFile "string list" | PickleFile "string list"

type_synonym filesystem = "string list \<rightharpoonup> node"

datatype error = IndexError | OSError | RuntimeError | UnpicklingError

definition parse_path :: "string \<Rightarrow> string list" where
  \<comment> \<open>\<open>Path(s)\<close>: the components of the path.\<close>
  "parse_path s = filter (\<lambda>c. c \<noteq> [] \<and> c \<noteq> ''.'') (str_split ''/'' s)"

definition is_dir :: "filesystem \<Rightarrow> string list \<Rightarrow> bool" where
  "is_dir fs loc \<longleftrightarrow> loc = [] \<or> fs loc = Some Dir"

fun walk :: "filesystem \<Rightarrow> string list \<Rightarrow> string list \<Rightarrow> string list option" where
  \<comment> \<open>Resolution of the remaining components from the place \<open>loc\<close>: every step starts
      from a directory; the place reached need not exist.\<close>
  "walk fs loc [] = Some loc"
| "walk fs loc (c # cs) =
     (if is_dir fs loc then walk fs (if c = ''..'' then butlast loc else loc @ [c]) cs
      else None)"

definition locate :: "filesystem \<Rightarrow> string list \<Rightarrow> string list option" where
  "locate fs path = walk fs [] path"

definition node_at :: "filesystem \<Rightarrow> string list \<Rightarrow> node option" where
  "node_at fs path =
     (case locate fs path of
        None \<Rightarrow> None
      | Some loc \<Rightarrow> if loc = [] then Some Dir else fs loc)"

definition path_exists :: "filesystem \<Rightarrow> string list \<Rightarrow> bool" where
  \<comment> \<open>\<open>Path.exists()\<close>\<close>
  "path_exists fs path \<longleftrightarrow> node_at fs path \<noteq> None"

definition and_then :: "(error + unit) \<times> 's \<Rightarrow> ('s \<Rightarrow> (error + unit) \<times> 's) \<Rightarrow> (error + unit) \<times> 's" where
  \<comment> \<open>One statement after another: an exception raised by the first ends the run, with
      the state as the first left it.\<close>
  "and_then r f = (case r of (Inl e, s) \<Rightarrow> (Inl e, s) | (Inr u, s) \<Rightarrow> f s)"

definition rmtree :: "string list \<Rightarrow> filesystem \<Rightarrow> (error + unit) \<times> filesystem" where
  \<comment> \<open>\<open>shutil.rmtree(path)\<close>: a path that does not lead to a directory raises; otherwise
      everything below the directory is removed, and then the directory itself, by its
      path, which fails when the path no longer leads to it (or leads to the root).\<close>
  "rmtree path fs =
     (case locate fs path of
        None \<Rightarrow> (Inl OSError, fs)
      | Some loc \<Rightarrow>
          if \<not> is_dir fs loc then (Inl OSError, fs)
          else
            let emptied = (\<lambda>p. if strict_prefix loc p then None else fs p)
            in if loc \<noteq> [] \<and> locate emptied path = Some loc
               then (Inr (), emptied(loc := None))
               else (Inl OSError, emptied))"

fun mkdirs :: "string list \<Rightarrow> string list \<Rightarrow> filesystem \<Rightarrow> (error + unit) \<times> filesystem" where
  \<comment> \<open>\<open>Path.mkdir(parents=True, exist_ok=True)\<close> on the components that remain from the
      place \<open>loc\<close>: a missing directory is created, an existing one is passed, anything
      else in the way raises.\<close>
  "mkdirs loc [] fs = (Inr (), fs)"
| "mkdirs loc (c # cs) fs =
     (if c = ''..'' then mkdirs (butlast loc) cs fs
      else case fs (loc @ [c]) of
             None \<Rightarrow> mkdirs (loc @ [c]) cs (fs(loc @ [c] \<mapsto> Dir))
           | Some Dir \<Rightarrow> mkdirs (loc @ [c]) cs fs
           | Some other \<Rightarrow> (Inl OSError, fs))"

definition write_file :: "error \<Rightarrow> string list \<Rightarrow> node \<Rightarrow> filesystem \<Rightarrow> (error + unit) \<times> filesystem" where
  \<comment> \<open>A file opened for writing and written: the path must resolve, and not to a
      directory. \<open>err\<close> is the exception the writer raises otherwise.\<close>
  "write_file err path content fs =
     (case locate fs path of
        None \<Rightarrow> (Inl err, fs)
      | Some loc \<Rightarrow> if is_dir fs loc then (Inl err, fs) else (Inr (), fs(loc \<mapsto> content)))"

section \<open>The index store (embed_and_store.py)\<close>

definition from_texts :: "string list \<Rightarrow> error + string list" where
  \<comment> \<open>\<open>FAISS.from_texts(chunks, embedding)\<close>: the library reads the dimension off the first
      embedding, so a list of no texts raises IndexError.\<close>
  "from_texts chunks = (if chunks = [] then Inl IndexError else Inr chunks)"

definition save_local :: "string list \<Rightarrow> string list \<Rightarrow> filesystem \<Rightarrow> (error + unit) \<times> filesystem" where
  \<comment> \<open>\<open>vectorstore.save_local(folder)\<close>: the folder is made, then \<open>index.faiss\<close> is
      written by faiss and \<open>index.pkl\<close> by pickle.\<close>
  "save_local texts path fs =
     and_then (and_then (mkdirs [] path fs)
       (write_file RuntimeError (path @ [''index.faiss'']) (FaissFile texts)))
       (write_file OSError (path @ [''index.pkl'']) (PickleFile texts))"

definition load_local :: "string list \<Rightarrow> filesystem \<Rightarrow> error + string list" where
  \<comment> \<open>\<open>FAISS.load_local(folder, embeddings)\<close>: faiss reads \<open>index.faiss\<close> and raises
      RuntimeError when it cannot; then \<open>index.pkl\<close> is opened and unpickled.\<close>
  "load_local path fs =
     (case node_at fs (path @ [''index.faiss'']) of
        Some (FaissFile vectors) \<Rightarrow>
          (case node_at fs (path @ [''index.pkl'']) of
             Some (PickleFile texts) \<Rightarrow> Inr texts
           | Some Dir \<Rightarrow> Inl OSError
           | None \<Rightarrow> Inl OSError
           | Some other \<Rightarrow> Inl UnpicklingError)
      | other \<Rightarrow> Inl RuntimeError)"

function decimal :: "nat \<Rightarrow> string" where
  \<comment> \<open>The decimal digits of \<open>i\<close>, as the f-string prints them.\<close>
  "decimal n = (if n < 10 then [char_of (48 + n)] else decimal (n div 10) @ [char_of (48 + n mod 10)])"
  by pat_completeness auto
termination
  by (relation "measure id") auto

declare decimal.simps [simp del]

fun meta_lines :: "nat \<Rightarrow> string list \<Rightarrow> string" where
  \<comment> \<open>What the loop over \<open>enumerate(chunks)\<close> writes, from index \<open>i\<close> on.\<close>
  "meta_lines i [] = []"
| "meta_lines i (chunk # chunks) =
     ''--- Chunk '' @ decimal i @ '' ---'' @ [CHR 0x0A] @ chunk @ [CHR 0x0A, CHR 0x0A]
       @ meta_lines (Suc i) chunks"

definition parent_of :: "string list \<Rightarrow> string list" where
  \<comment> \<open>\<open>Path.parent\<close>\<close>
  "parent_of path = butlast path"

definition name_of :: "string list \<Rightarrow> string" where
  \<comment> \<open>\<open>Path.name\<close>\<close>
  "name_of path = (if path = [] then [] else last path)"

definition remove_existing :: "string list \<Rightarrow> filesystem \<Rightarrow> (error + unit) \<times> filesystem" where
  \<comment> \<open>\<open>if index_path.exists(): shutil.rmtree(index_path)\<close>\<close>
  "remove_existing index_path fs =
     (if path_exists fs index_path then rmtree index_path fs else (Inr (), fs))"

definition store_files :: "string list \<Rightarrow> string \<Rightarrow> filesystem \<Rightarrow> (error + unit) \<times> filesystem" where
  \<comment> \<open>The body of \<open>store_in_faiss\<close>, statement by statement, on the file system.\<close>
  "store_files chunks index_dir fs =
     (let index_path = parse_path index_dir;
          meta_path = parent_of index_path @ [name_of index_path @ ''_meta.txt'']
      in and_then (and_then (and_then (and_then
           (remove_existing index_path fs)
           (mkdirs [] (parent_of index_path)))
           (\<lambda>fs. case from_texts chunks of Inl e \<Rightarrow> (Inl e, fs) | Inr vectorstore \<Rightarrow> (Inr (), fs)))
           (save_local chunks index_path))
           (write_file OSError meta_path (TextFile (meta_lines 0 chunks))))"

section \<open>The chat application (chatbot_app.py)\<close>

text \<open>
  \<open>files\<close> is the file system. \<open>cache\<close> is the table of \<open>st.cache_resource\<close> for
  \<open>load_vectorstore\<close>: the value returned for each argument the function has returned
  for in this process, \<open>None\<close> results included; a call that raises enters nothing.
  \<open>llm_calls\<close> and \<open>pdf_calls\<close> record the calls made to the language model and to
  \<open>generate_pdf\<close>; \<open>current_index\<close> and \<open>index_loaded\<close> are the session state.
\<close>

datatype message = SystemMessage string | HumanMessage string

datatype llm_call =
    Messages "message list"           \<comment> \<open>\<open>llm(messages)\<close>\<close>
  | StuffChain "string list" string   \<comment> \<open>the RetrievalQA chain: retrieved texts and query\<close>

record world =
  files :: filesystem
  cache :: "string \<rightharpoonup> string list option"
  llm_calls :: "llm_call list"
  pdf_calls :: "(string \<times> string \<times> string \<times> string) list"
  current_index :: string
  index_loaded :: bool

definition store_in_faiss :: "string list \<Rightarrow> string \<Rightarrow> world \<Rightarrow> (error + unit) \<times> world" where
  \<comment> \<open>\<open>store_in_faiss\<close> in a world: the result is the exception raised or \<open>()\<close>, with the
      world as the call leaves it.\<close>
  "store_in_faiss chunks index_dir w =
     (case store_files chunks index_dir (files w) of (r, fs) \<Rightarrow> (r, w\<lparr>files := fs\<rparr>))"

definition process_uploaded_file :: "(string \<Rightarrow> nat) \<Rightarrow> string \<Rightarrow> string \<Rightarrow> world \<Rightarrow> bool \<times> world" where
  \<comment> \<open>\<open>transcript\<close> is what \<open>transcribe_audio\<close> returned for the uploaded file (empty on
      failure), \<open>file_name\<close> is \<open>uploaded_file.name\<close>. The \<open>except\<close> clause turns an
      exception of \<open>store_in_faiss\<close> into the result \<open>False\<close>. The temporary copy of the
      upload is not modelled.\<close>
  "process_uploaded_file tok transcript file_name w =
     (if transcript = [] then (False, w)
      else
        let chunks = split_text_into_chunks tok transcript 300;
            index_name = str_replace '' '' ''_'' (str_replace ''.mp3'' [] file_name)
        in case store_in_faiss chunks (''faiss_store/'' @ index_name) w of
             (Inl e, w1) \<Rightarrow> (False, w1)
           | (Inr u, w1) \<Rightarrow> (True, w1\<lparr>current_index := index_name, index_loaded := True\<rparr>))"

definition load_vectorstore :: "string \<Rightarrow> world \<Rightarrow> (error + string list option) \<times> world" where
  \<comment> \<open>Under \<open>@st.cache_resource\<close>: a name that has returned before gets the value returned
      then, and the body runs otherwise; its result is entered in the table, an exception
      is not.\<close>
  "load_vectorstore index_name w =
     (case cache w index_name of
        Some cached \<Rightarrow> (Inr cached, w)
      | None \<Rightarrow>
          (let index_path = parse_path (''faiss_store/'' @ index_name)
           in if \<not> path_exists (files w) index_path
              then (Inr None, w\<lparr>cache := (cache w)(index_name \<mapsto> None)\<rparr>)
              else case load_local index_path (files w) of
                     Inl e \<Rightarrow> (Inl e, w)
                   | Inr texts \<Rightarrow>
                       (Inr (Some texts), w\<lparr>cache := (cache w)(index_name \<mapsto> Some texts)\<rparr>)))"

datatype result_type = Error | Report | Chat

record result =
  rtype :: result_type
  answer :: string
  pdf_path :: "string option"
  sources :: "string list"

record collaborators =
  similarity_search :: "string list \<Rightarrow> string \<Rightarrow> string list"
  llm :: "llm_call \<Rightarrow> string"

definition no_index_answer :: string where
  \<comment> \<open>The source's literal starts with a cross mark emoji and a space, which are outside
      the 8-bit characters and are left out here.\<close>
  "no_index_answer = ''No index loaded. Please upload an audio file first.''"

definition report_answer :: string where
  \<comment> \<open>Likewise without its leading page emoji and space.\<close>
  "report_answer = ''Report generated successfully! Click below to download.''"

definition generate_pdf :: "string \<Rightarrow> string \<Rightarrow> string \<Rightarrow> string \<Rightarrow> world \<Rightarrow> string \<times> world" where
  \<comment> \<open>The rendering is the fpdf library's; the model records the call and returns the
      path of the file written.\<close>
  "generate_pdf title diagnosis medications filename w =
     (''rag_chatbot/'' @ filename,
      w\<lparr>pdf_calls := pdf_calls w @ [(title, diagnosis, medications, filename)]\<rparr>)"

definition parse_report :: "string \<Rightarrow> string \<times> string" where
  \<comment> \<open>Lines 190 to 198 of \<open>process_query\<close>: the pair \<open>(diagnosis, meds)\<close> read off the
      model's response.\<close>
  "parse_report response =
     (if str_in ''Diagnosis'' response
      then
        let parts = str_split ''Medications'' response
        in (strip (str_replace ''Diagnosis'' [] (parts ! 0)),
            if length parts > 1 then strip (parts ! 1) else ''Not found.'')
      else (response, ''Not found.''))"

definition report_prompt :: "string \<Rightarrow> string" where
  "report_prompt context =
     ''Based on the following doctor-patient conversation, generate:'' @ [CHR 0x0A]
     @ ''- A clear diagnosis summary'' @ [CHR 0x0A]
     @ ''- A list of medications prescribed'' @ [CHR 0x0A, CHR 0x0A]
     @ ''Conversation:'' @ [CHR 0x0A] @ context @ [CHR 0x0A]"

definition process_query :: "collaborators \<Rightarrow> string \<Rightarrow> string \<Rightarrow> world \<Rightarrow> (error + result) \<times> world" where
  \<comment> \<open>An exception of \<open>load_vectorstore\<close> is not caught and is the outcome of the call.\<close>
  "process_query env query index_name w =
     (case load_vectorstore index_name w of
        (Inl e, w1) \<Rightarrow> (Inl e, w1)
      | (Inr None, w1) \<Rightarrow>
          (Inr \<lparr>rtype = Error, answer = no_index_answer, pdf_path = None, sources = []\<rparr>, w1)
      | (Inr (Some vs), w1) \<Rightarrow>
          if str_in ''generate report'' (lower query) \<or> str_in ''download report'' (lower query)
          then
            let chunks = similarity_search env vs ''patient summary, diagnosis and medications'';
                context = str_join para_sep chunks;
                messages = [SystemMessage ''You are a medical assistant generating structured reports.'',
                            HumanMessage (report_prompt context)];
                response = llm env (Messages messages);
                w2 = w1\<lparr>llm_calls := llm_calls w1 @ [Messages messages]\<rparr>;
                (diagnosis, meds) = parse_report response;
                (path, w3) = generate_pdf ''Patient Report'' diagnosis meds ''patient_report.pdf'' w2
            in (Inr \<lparr>rtype = Report, answer = report_answer, pdf_path = Some path, sources = chunks\<rparr>, w3)
          else
            let chunks = similarity_search env vs query;
                call = StuffChain chunks query
            in (Inr \<lparr>rtype = Chat, answer = llm env call, pdf_path = None, sources = chunks\<rparr>,
                w1\<lparr>llm_calls := llm_calls w1 @ [call]\<rparr>))"

section \<open>Case-insensitive containment, as the specification words it\<close>

text \<open>
  The specification's test on a query: some stretch of the text equals the phrase when
  both are compared in lower case.
\<close>

definition contains_ignoring_case :: "string \<Rightarrow> string \<Rightarrow> bool" where
  "contains_ignoring_case phrase s \<longleftrightarrow> (\<exists>a m b. s = a @ m @ b \<and> lower m = lower phrase)"

section \<open>Facts about the string operations\<close>

lemma str_split_Nil [simp]: "str_split sep [] = [[]]"
  by (subst str_split.simps) simp

lemma str_split_Cons [simp]:
  "str_split sep (c # cs) =
     (if sep \<noteq> [] \<and> prefix sep (c # cs) then [] # str_split sep (drop (length sep) (c # cs))
      else case str_split sep cs of [] \<Rightarrow> [[c]] | p # ps \<Rightarrow> (c # p) # ps)"
  by (subst str_split.simps) simp

lemma str_replace_Nil [simp]: "str_replace old new [] = []"
  by (subst str_replace.simps) simp

lemma str_replace_Cons [simp]:
  "str_replace old new (c # cs) =
     (if old \<noteq> [] \<and> prefix old (c # cs) then new @ str_replace old new (drop (length old) (c # cs))
      else c # str_replace old new cs)"
  by (subst str_replace.simps) simp

lemma str_split_not_Nil: "str_split sep s \<noteq> []"
  by (induction s) (auto split: list.splits)

lemma str_split_absent: "\<not> str_in sep s \<Longrightarrow> str_split sep s = [s]"
  by (induction s) auto

lemma str_replace_absent: "\<not> str_in old s \<Longrightarrow> str_replace old new s = s"
  by (induction s) auto

lemma str_in_iff: "str_in sub s \<longleftrightarrow> (\<exists>a b. s = a @ sub @ b)"
proof (induction s)
  case Nil
  show ?case by auto
next
  case (Cons c cs)
  show ?case
  proof
    assume "str_in sub (c # cs)"
    then consider "prefix sub (c # cs)" | "str_in sub cs" by auto
    then show "\<exists>a b. c # cs = a @ sub @ b"
    proof cases
      case 1
      then obtain b where "c # cs = sub @ b" by (auto simp: prefix_def)
      then have "c # cs = [] @ sub @ b" by simp
      then show ?thesis by blast
    next
      case 2
      with Cons.IH obtain a b where "cs = a @ sub @ b" by blast
      then have "c # cs = (c # a) @ sub @ b" by simp
      then show ?thesis by blast
    qed
  next
    assume "\<exists>a b. c # cs = a @ sub @ b"
    then obtain a b where ab: "c # cs = a @ sub @ b" by blast
    show "str_in sub (c # cs)"
    proof (cases a)
      case Nil
      with ab have "prefix sub (c # cs)" by (simp add: prefix_def)
      then show ?thesis by simp
    next
      case (Cons x a')
      with ab have "cs = a' @ sub @ b" by simp
      with Cons.IH have "str_in sub cs" by blast
      then show ?thesis by simp
    qed
  qed
qed

lemma prefix_overlap:
  assumes "prefix s (a @ s @ r)" and "a \<noteq> []" and "s \<noteq> []" and "hd s \<notin> set (tl s)"
  shows "prefix s a"
proof -
  from assms(1) have "prefix s a \<or> (\<exists>us. s = a @ us \<and> prefix us (s @ r))"
    by (rule prefix_append[THEN iffD1])
  then consider "prefix s a" | us where "s = a @ us" "prefix us (s @ r)"
    by blast
  then show ?thesis
  proof cases
    case 1
    then show ?thesis .
  next
    case 2
    show ?thesis
    proof (cases us)
      case Nil
      with 2 show ?thesis by simp
    next
      case (Cons u us')
      with 2(2) assms(3) have "u = hd s" by (cases s) auto
      moreover from 2(1) Cons assms(2) have "u \<in> set (tl s)" by (cases a) auto
      ultimately show ?thesis using assms(4) by simp
    qed
  qed
qed

lemma str_split_first:
  assumes "sep \<noteq> []" and "hd sep \<notin> set (tl sep)"
  shows "\<not> str_in sep a \<Longrightarrow> str_split sep (a @ sep @ rest) = a # str_split sep rest"
proof (induction a)
  case Nil
  show ?case using assms(1) by (subst str_split.simps) simp
next
  case (Cons x a)
  from Cons.prems have np: "\<not> prefix sep (x # a)" and ni: "\<not> str_in sep a" by auto
  have "\<not> prefix sep ((x # a) @ sep @ rest)"
    using prefix_overlap[OF _ _ assms, of "x # a" rest] np by blast
  then have "str_split sep ((x # a) @ sep @ rest) =
      (case str_split sep (a @ sep @ rest) of [] \<Rightarrow> [[x]] | p # ps \<Rightarrow> (x # p) # ps)"
    by simp
  also have "\<dots> = (x # a) # str_split sep rest"
    using Cons.IH[OF ni] by simp
  finally show ?case .
qed

lemma str_replace_first:
  assumes "old \<noteq> []" and "hd old \<notin> set (tl old)"
  shows "\<not> str_in old a \<Longrightarrow> str_replace old new (a @ old @ rest) = a @ new @ str_replace old new rest"
proof (induction a)
  case Nil
  show ?case using assms(1) by (subst str_replace.simps) simp
next
  case (Cons x a)
  from Cons.prems have np: "\<not> prefix old (x # a)" and ni: "\<not> str_in old a" by auto
  have "\<not> prefix old ((x # a) @ old @ rest)"
    using prefix_overlap[OF _ _ assms, of "x # a" rest] np by blast
  then have "str_replace old new ((x # a) @ old @ rest) = x # str_replace old new (a @ old @ rest)"
    by simp
  with Cons.IH[OF ni] show ?case by simp
qed

lemma isspace_LF: "isspace (CHR 0x0A)"
  by (simp add: isspace_def)

lemma strip_para_sep: "strip para_sep = []"
  by (simp add: strip_def para_sep_def isspace_LF)

section \<open>The chunker on the empty text\<close>

text \<open>
  C3. The empty text has the one paragraph \<open>""\<close>, whose candidate is the bare separator.
  When the separator's token count is within the budget the accumulator becomes the
  separator, which is not empty, and its stripped form, the empty string, is emitted as
  the only chunk. The result is the empty list only for a budget below the separator's
  token count.
\<close>

theorem empty_text_chunks:
  "split_text_into_chunks tok [] max_tokens =
     (if int (tok para_sep) \<le> max_tokens then [[]] else [])"
  by (simp add: split_text_into_chunks_def strip_para_sep) (simp add: para_sep_def)

section \<open>Parsing the report\<close>

text \<open>
  C6. On the response \<open>"Diagnosis: Flu\nMedications: Tamiflu"\<close> the split at
  \<open>Medications\<close> leaves \<open>"Diagnosis: Flu\n"\<close> and \<open>": Tamiflu"\<close>; the marker
  \<open>Diagnosis\<close> is deleted and white space is stripped, and the colons stay: the diagnosis
  is \<open>": Flu"\<close> and the medications are \<open>": Tamiflu"\<close>.
\<close>

theorem report_example_parse:
  "parse_report (''Diagnosis: Flu'' @ [CHR 0x0A] @ ''Medications: Tamiflu'')
     = ('': Flu'', '': Tamiflu'')"
  by (simp add: parse_report_def strip_def isspace_def)

theorem report_example_counterexample:
  "parse_report (''Diagnosis: Flu'' @ [CHR 0x0A] @ ''Medications: Tamiflu'')
     \<noteq> (''Flu'', ''Tamiflu'')"
  by (simp add: parse_report_def strip_def isspace_def)

text \<open>
  C7. For a response without \<open>Medications\<close> the medications are \<open>"Not found."\<close>. The
  diagnosis is the response with every \<open>Diagnosis\<close> deleted and then stripped when the
  response contains \<open>Diagnosis\<close>, and the response as it is, not stripped, otherwise.
\<close>

theorem no_medications_parse:
  "\<not> str_in ''Medications'' response \<Longrightarrow>
   parse_report response =
     (if str_in ''Diagnosis'' response
      then strip (str_replace ''Diagnosis'' [] response) else response,
      ''Not found.'')"
  by (simp add: parse_report_def str_split_absent)

theorem no_medications_parse_witness:
  "\<not> str_in ''Medications'' ''Diagnosis: Flu'' \<and>
   parse_report ''Diagnosis: Flu'' = ('': Flu'', ''Not found.'')"
  using no_medications_parse[of "''Diagnosis: Flu''"]
  by (simp add: strip_def isspace_def)

theorem no_medications_counterexample:
  "\<not> str_in ''Medications'' ''Diagnosis: Flu'' \<and>
   fst (parse_report ''Diagnosis: Flu'') = '': Flu'' \<and>
   fst (parse_report ''Diagnosis: Flu'') \<noteq> strip ''Diagnosis: Flu''"
  by (simp add: parse_report_def strip_def isspace_def)

text \<open>
  C10. For every response that contains \<open>Diagnosis\<close>: without \<open>Medications\<close> the whole
  response is the first segment; otherwise the first segment is the text before the first
  \<open>Medications\<close>. The diagnosis is that segment with \<open>Diagnosis\<close> deleted and then
  stripped. The medications are the stripped text behind the only \<open>Medications\<close>, or
  between the first two occurrences, whatever follows the second. The deletion takes
  every occurrence: it removes the first one and goes on in the rest, and leaves a text
  without the marker as it is.
\<close>

theorem report_parse_every_occurrence:
  "(str_in ''Diagnosis'' r \<and> \<not> str_in ''Medications'' r
    \<longrightarrow> parse_report r = (strip (str_replace ''Diagnosis'' [] r), ''Not found.'')) \<and>
   (str_in ''Diagnosis'' (a @ ''Medications'' @ rest) \<and> \<not> str_in ''Medications'' a
    \<longrightarrow> fst (parse_report (a @ ''Medications'' @ rest)) = strip (str_replace ''Diagnosis'' [] a)) \<and>
   (str_in ''Diagnosis'' (a @ ''Medications'' @ b) \<and>
    \<not> str_in ''Medications'' a \<and> \<not> str_in ''Medications'' b
    \<longrightarrow> snd (parse_report (a @ ''Medications'' @ b)) = strip b) \<and>
   (str_in ''Diagnosis'' (a @ ''Medications'' @ b @ ''Medications'' @ c) \<and>
    \<not> str_in ''Medications'' a \<and> \<not> str_in ''Medications'' b
    \<longrightarrow> snd (parse_report (a @ ''Medications'' @ b @ ''Medications'' @ c)) = strip b) \<and>
   (\<not> str_in ''Diagnosis'' x
    \<longrightarrow> str_replace ''Diagnosis'' [] (x @ ''Diagnosis'' @ y)
          = x @ str_replace ''Diagnosis'' [] y) \<and>
   (\<not> str_in ''Diagnosis'' x \<longrightarrow> str_replace ''Diagnosis'' [] x = x)"
proof (intro conjI impI)
  assume "str_in ''Diagnosis'' r \<and> \<not> str_in ''Medications'' r"
  then show "parse_report r = (strip (str_replace ''Diagnosis'' [] r), ''Not found.'')"
    by (simp add: parse_report_def str_split_absent)
next
  assume h: "str_in ''Diagnosis'' (a @ ''Medications'' @ rest) \<and> \<not> str_in ''Medications'' a"
  then have "str_split ''Medications'' (a @ ''Medications'' @ rest)
      = a # str_split ''Medications'' rest"
    by (intro str_split_first) simp_all
  with h show "fst (parse_report (a @ ''Medications'' @ rest))
      = strip (str_replace ''Diagnosis'' [] a)"
    unfolding parse_report_def by (simp only: Let_def if_True) simp
next
  assume h: "str_in ''Diagnosis'' (a @ ''Medications'' @ b) \<and>
    \<not> str_in ''Medications'' a \<and> \<not> str_in ''Medications'' b"
  then have "str_split ''Medications'' (a @ ''Medications'' @ b)
      = a # str_split ''Medications'' b"
    by (intro str_split_first) simp_all
  with h have "str_split ''Medications'' (a @ ''Medications'' @ b) = [a, b]"
    by (simp add: str_split_absent)
  with h show "snd (parse_report (a @ ''Medications'' @ b)) = strip b"
    unfolding parse_report_def by (simp only: Let_def if_True) simp
next
  assume h: "str_in ''Diagnosis'' (a @ ''Medications'' @ b @ ''Medications'' @ c) \<and>
    \<not> str_in ''Medications'' a \<and> \<not> str_in ''Medications'' b"
  have "str_split ''Medications'' (b @ ''Medications'' @ c) = b # str_split ''Medications'' c"
    using h by (intro str_split_first) simp_all
  moreover have "str_split ''Medications'' (a @ ''Medications'' @ b @ ''Medications'' @ c)
      = a # str_split ''Medications'' (b @ ''Medications'' @ c)"
    using h by (intro str_split_first) simp_all
  ultimately have parts: "str_split ''Medications'' (a @ ''Medications'' @ b @ ''Medications'' @ c)
      = a # b # str_split ''Medications'' c"
    by simp
  with h show "snd (parse_report (a @ ''Medications'' @ b @ ''Medications'' @ c)) = strip b"
    unfolding parse_report_def by (simp only: Let_def if_True) simp
next
  assume "\<not> str_in ''Diagnosis'' x"
  then show "str_replace ''Diagnosis'' [] (x @ ''Diagnosis'' @ y)
      = x @ str_replace ''Diagnosis'' [] y"
    using str_replace_first[of "''Diagnosis''" x "[]" y] by simp
next
  assume "\<not> str_in ''Diagnosis'' x"
  then show "str_replace ''Diagnosis'' [] x = x"
    by (rule str_replace_absent)
qed

theorem report_parse_every_occurrence_witness:
  "str_in ''Diagnosis'' ''Diagnosis: Flu Diagnosis'' \<and>
   \<not> str_in ''Medications'' ''Diagnosis: Flu Diagnosis'' \<and>
   parse_report ''Diagnosis: Flu Diagnosis'' = ('': Flu'', ''Not found.'') \<and>
   str_in ''Diagnosis'' ''Diagnosis A Diagnosis B Medications C'' \<and>
   \<not> str_in ''Medications'' ''Diagnosis A Diagnosis B '' \<and> \<not> str_in ''Medications'' '' C'' \<and>
   parse_report ''Diagnosis A Diagnosis B Medications C'' = (''A  B'', ''C'') \<and>
   str_in ''Diagnosis'' ''Diagnosis: A Medications: B Medications: C'' \<and>
   \<not> str_in ''Medications'' ''Diagnosis: A '' \<and> \<not> str_in ''Medications'' '': B '' \<and>
   parse_report ''Diagnosis: A Medications: B Medications: C'' = ('': A'', '': B'') \<and>
   \<not> str_in ''Diagnosis'' ''Flu, '' \<and>
   str_replace ''Diagnosis'' [] ''Flu, Diagnosis cold'' = ''Flu,  cold''"
proof -
  note t1 = report_parse_every_occurrence[of "''Diagnosis: Flu Diagnosis''" "[]" "[]" "[]" "[]" "[]" "[]"]
  note t2 = report_parse_every_occurrence[of "[]" "''Diagnosis A Diagnosis B ''" "'' C''" "'' C''" "[]" "[]" "[]"]
  note t3 = report_parse_every_occurrence[of "[]" "''Diagnosis: A ''" "'': B Medications: C''" "'': B ''" "'': C''" "[]" "[]"]
  note t4 = report_parse_every_occurrence[of "[]" "[]" "[]" "[]" "[]" "''Flu, ''" "'' cold''"]
  have 1: "str_in ''Diagnosis'' ''Diagnosis: Flu Diagnosis'' \<and>
     \<not> str_in ''Medications'' ''Diagnosis: Flu Diagnosis''"
    by simp
  with t1 have p1: "parse_report ''Diagnosis: Flu Diagnosis'' = ('': Flu'', ''Not found.'')"
    by (simp add: strip_def isspace_def)
  have 2: "str_in ''Diagnosis'' ''Diagnosis A Diagnosis B Medications C'' \<and>
     \<not> str_in ''Medications'' ''Diagnosis A Diagnosis B '' \<and> \<not> str_in ''Medications'' '' C''"
    by simp
  with t2 have p2: "parse_report ''Diagnosis A Diagnosis B Medications C'' = (''A  B'', ''C'')"
    by (simp add: strip_def isspace_def prod_eq_iff)
  have 3: "str_in ''Diagnosis'' ''Diagnosis: A Medications: B Medications: C'' \<and>
     \<not> str_in ''Medications'' ''Diagnosis: A '' \<and> \<not> str_in ''Medications'' '': B ''"
    by simp
  with t3 have p3: "parse_report ''Diagnosis: A Medications: B Medications: C'' = ('': A'', '': B'')"
    by (simp add: strip_def isspace_def prod_eq_iff)
  have 4: "\<not> str_in ''Diagnosis'' ''Flu, ''"
    by simp
  with t4 have p4: "str_replace ''Diagnosis'' [] ''Flu, Diagnosis cold'' = ''Flu,  cold''"
    by simp
  from 1 p1 2 p2 3 p3 4 p4 show ?thesis by blast
qed

section \<open>Routing a query\<close>

lemma str_in_lower: "str_in sub (lower s) \<longleftrightarrow> (\<exists>a m b. s = a @ m @ b \<and> lower m = sub)"
proof
  assume "str_in sub (lower s)"
  then obtain a' b' where "map lower_char s = a' @ sub @ b'"
    by (auto simp: str_in_iff lower_def)
  then obtain a t where "s = a @ t" and "map lower_char t = sub @ b'"
    by (metis map_eq_append_conv)
  moreover from this obtain m b where "t = m @ b" and "map lower_char m = sub"
    by (metis map_eq_append_conv)
  ultimately have "s = a @ m @ b" and "map lower_char m = sub"
    by simp_all
  then show "\<exists>a m b. s = a @ m @ b \<and> lower m = sub"
    by (auto simp: lower_def)
next
  assume "\<exists>a m b. s = a @ m @ b \<and> lower m = sub"
  then obtain a m b where "s = a @ m @ b" and "lower m = sub"
    by blast
  then have "lower s = lower a @ sub @ lower b"
    by (simp add: lower_def)
  then show "str_in sub (lower s)"
    unfolding str_in_iff by blast
qed

lemma lower_generate_report: "lower ''generate report'' = ''generate report''"
  by code_simp

lemma lower_download_report: "lower ''download report'' = ''download report''"
  by code_simp

lemma is_report_query:
  "str_in ''generate report'' (lower query) \<or> str_in ''download report'' (lower query) \<longleftrightarrow>
   contains_ignoring_case ''generate report'' query \<or> contains_ignoring_case ''download report'' query"
  by (simp only: str_in_lower contains_ignoring_case_def lower_generate_report lower_download_report)

text \<open>
  C5. With an index handle loaded for the name, \<open>process_query\<close> takes the report branch
  exactly when the query contains \<open>generate report\<close> or \<open>download report\<close> compared
  case-insensitively, and the chat branch otherwise. The witness runs the queries
  \<open>"Please GENERATE REPORT now"\<close> and \<open>"generate a summary"\<close>.
\<close>

theorem query_routing:
  "fst (load_vectorstore index_name w) = Inr (Some vs) \<Longrightarrow>
   (map_sum id rtype (fst (process_query env query index_name w)) = Inr Report \<longleftrightarrow>
      contains_ignoring_case ''generate report'' query \<or>
      contains_ignoring_case ''download report'' query) \<and>
   (map_sum id rtype (fst (process_query env query index_name w)) = Inr Chat \<longleftrightarrow>
      \<not> (contains_ignoring_case ''generate report'' query \<or>
         contains_ignoring_case ''download report'' query))"
  unfolding is_report_query[symmetric]
  by (cases "load_vectorstore index_name w")
     (simp add: process_query_def Let_def split: prod.splits)

theorem query_routing_witness:
  "fst (load_vectorstore ''a'' (snd (store_in_faiss [''old''] ''faiss_store/a'' \<lparr>files = Map.empty, cache = Map.empty, llm_calls = [], pdf_calls = [], current_index = ''RES0215'', index_loaded = False\<rparr>)))
     = Inr (Some [''old'']) \<and>
   contains_ignoring_case ''generate report'' ''Please GENERATE REPORT now'' \<and>
   map_sum id rtype (fst (process_query \<lparr>similarity_search = (\<lambda>docs q. take 4 docs), llm = (\<lambda>c. [])\<rparr>
      ''Please GENERATE REPORT now'' ''a''
      (snd (store_in_faiss [''old''] ''faiss_store/a'' \<lparr>files = Map.empty, cache = Map.empty, llm_calls = [], pdf_calls = [], current_index = ''RES0215'', index_loaded = False\<rparr>)))) = Inr Report \<and>
   map_sum id rtype (fst (process_query \<lparr>similarity_search = (\<lambda>docs q. take 4 docs), llm = (\<lambda>c. [])\<rparr>
      ''generate a summary'' ''a''
      (snd (store_in_faiss [''old''] ''faiss_store/a'' \<lparr>files = Map.empty, cache = Map.empty, llm_calls = [], pdf_calls = [], current_index = ''RES0215'', index_loaded = False\<rparr>)))) = Inr Chat"
proof -
  let ?w = "snd (store_in_faiss [''old''] ''faiss_store/a'' \<lparr>files = Map.empty, cache = Map.empty, llm_calls = [], pdf_calls = [], current_index = ''RES0215'', index_loaded = False\<rparr>)"
  let ?env = "\<lparr>similarity_search = (\<lambda>docs q. take 4 docs), llm = (\<lambda>c. [])\<rparr>"
  have loaded: "fst (load_vectorstore ''a'' ?w) = Inr (Some [''old''])"
    by code_simp
  have "''Please GENERATE REPORT now'' = ''Please '' @ ''GENERATE REPORT'' @ '' now''"
    by simp
  moreover have "lower ''GENERATE REPORT'' = lower ''generate report''"
    by code_simp
  ultimately have ci: "contains_ignoring_case ''generate report'' ''Please GENERATE REPORT now''"
    unfolding contains_ignoring_case_def by blast
  have report: "map_sum id rtype (fst (process_query ?env ''Please GENERATE REPORT now'' ''a'' ?w))
      = Inr Report"
    using query_routing[OF loaded, of ?env "''Please GENERATE REPORT now''"] ci by blast
  have chat: "map_sum id rtype (fst (process_query ?env ''generate a summary'' ''a'' ?w)) = Inr Chat"
    by code_simp
  from loaded ci report chat show ?thesis by blast
qed

section \<open>Facts about the file system\<close>

lemma and_then_Inr:
  "and_then r f = (Inr u, s') \<longleftrightarrow> (\<exists>s. r = (Inr (), s) \<and> f s = (Inr u, s'))"
  by (cases r) (auto simp: and_then_def split: sum.splits)

lemma walk_cong: "is_dir fs' = is_dir fs \<Longrightarrow> walk fs' loc cs = walk fs loc cs"
  by (induction cs arbitrary: loc) simp_all


lemma walk_append:
  "walk fs loc (cs @ ds) = (case walk fs loc cs of None \<Rightarrow> None | Some l \<Rightarrow> walk fs l ds)"
  by (induction cs arbitrary: loc) simp_all

lemma locate_snoc:
  "locate fs (cs @ [c]) =
     (case locate fs cs of
        None \<Rightarrow> None
      | Some l \<Rightarrow> if is_dir fs l then Some (if c = ''..'' then butlast l else l @ [c]) else None)"
  by (simp add: locate_def walk_append split: option.splits)

lemma locate_last:
  assumes "locate fs path = Some loc" and "path \<noteq> []" and "last path \<noteq> ''..''"
  shows "loc \<noteq> [] \<and> last loc = last path"
proof -
  from assms(2) obtain cs c where path: "path = cs @ [c]"
    by (metis append_butlast_last_id)
  with assms(3) have "c \<noteq> ''..''" by simp
  with assms(1) path show ?thesis
    by (auto simp: locate_snoc split: option.splits if_splits)
qed

lemma node_at_below: "node_at fs path = None \<Longrightarrow> node_at fs (path @ below) = None"
proof (cases below)
  case Nil
  then show "node_at fs path = None \<Longrightarrow> ?thesis" by simp
next
  case (Cons c cs)
  assume "node_at fs path = None"
  then have "locate fs path = None \<or> (\<exists>loc. locate fs path = Some loc \<and> \<not> is_dir fs loc)"
    by (auto simp: node_at_def is_dir_def split: option.splits if_splits)
  then have "locate fs (path @ c # cs) = None"
    by (auto simp: locate_def walk_append)
  with Cons show ?thesis
    by (simp add: node_at_def)
qed

lemma node_at_parent: "node_at fs (path @ [c]) \<noteq> None \<Longrightarrow> path_exists fs path"
  by (metis node_at_below path_exists_def)

lemma write_file_Inr:
  "write_file err path content fs = (Inr u, fs') \<longleftrightarrow>
   (\<exists>loc. locate fs path = Some loc \<and> \<not> is_dir fs loc \<and> fs' = fs(loc \<mapsto> content))"
  by (auto simp: write_file_def split: option.splits)

lemma write_file_dirs:
  assumes "write_file err path content fs = (Inr u, fs')" and "content \<noteq> Dir"
  shows "is_dir fs' = is_dir fs"
proof -
  from assms(1) obtain loc where "\<not> is_dir fs loc" and "fs' = fs(loc \<mapsto> content)"
    by (auto simp: write_file_Inr)
  with assms(2) show ?thesis
    by (auto simp: is_dir_def fun_eq_iff)
qed

lemma write_file_same:
  assumes "write_file err path content fs = (Inr u, fs')" and "content \<noteq> Dir"
    and "path \<noteq> []" and "last path \<noteq> ''..''"
  shows "node_at fs' path = Some content"
proof -
  from assms(1) obtain loc where loc: "locate fs path = Some loc" "fs' = fs(loc \<mapsto> content)"
    by (auto simp: write_file_Inr)
  from locate_last[OF loc(1) assms(3,4)] have "loc \<noteq> []" by simp
  moreover have "locate fs' path = Some loc"
    using loc(1) walk_cong[OF write_file_dirs[OF assms(1,2)]] by (simp add: locate_def)
  ultimately show ?thesis
    using loc(2) by (simp add: node_at_def)
qed

lemma write_file_other:
  assumes "write_file err path content fs = (Inr u, fs')" and "content \<noteq> Dir"
    and "path \<noteq> []" and "last path \<noteq> ''..''"
    and "other \<noteq> []" and "last other \<noteq> ''..''" and "last other \<noteq> last path"
  shows "node_at fs' other = node_at fs other"
proof -
  from assms(1) obtain loc where loc: "locate fs path = Some loc" "fs' = fs(loc \<mapsto> content)"
    by (auto simp: write_file_Inr)
  have same: "locate fs' other = locate fs other"
    using walk_cong[OF write_file_dirs[OF assms(1,2)]] by (simp add: locate_def)
  show ?thesis
  proof (cases "locate fs other")
    case None
    with same show ?thesis by (simp add: node_at_def)
  next
    case (Some place)
    from locate_last[OF Some assms(5,6)] locate_last[OF loc(1) assms(3,4)] assms(7)
    have "place \<noteq> loc" by auto
    with Some same loc(2) show ?thesis
      by (simp add: node_at_def)
  qed
qed

lemma load_local_Inr:
  "load_local path fs = Inr texts \<longleftrightarrow>
   (\<exists>vectors. node_at fs (path @ [''index.faiss'']) = Some (FaissFile vectors)) \<and>
   node_at fs (path @ [''index.pkl'']) = Some (PickleFile texts)"
  by (auto simp: load_local_def split: option.splits node.splits)

lemma save_local_loads:
  assumes "save_local texts path fs = (Inr u, fs')"
  shows "load_local path fs' = Inr texts"
proof -
  from assms obtain fsa fsb where
    wf: "write_file RuntimeError (path @ [''index.faiss'']) (FaissFile texts) fsa = (Inr (), fsb)" and
    wp: "write_file OSError (path @ [''index.pkl'']) (PickleFile texts) fsb = (Inr u, fs')"
    by (auto simp: save_local_def and_then_Inr)
  have "node_at fsb (path @ [''index.faiss'']) = Some (FaissFile texts)"
    using write_file_same[OF wf] by simp
  moreover have "node_at fs' (path @ [''index.faiss'']) = node_at fsb (path @ [''index.faiss''])"
    using write_file_other[OF wp, of "path @ [''index.faiss'']"] by simp
  moreover have "node_at fs' (path @ [''index.pkl'']) = Some (PickleFile texts)"
    using write_file_same[OF wp] by simp
  ultimately show ?thesis
    by (simp add: load_local_Inr)
qed

lemma write_file_keeps_index:
  assumes "write_file err (parent @ [name @ ''_meta.txt'']) (TextFile content) fs = (Inr u, fs')"
    and "load_local path fs = Inr texts"
  shows "load_local path fs' = Inr texts"
proof -
  have "node_at fs' (path @ [''index.faiss'']) = node_at fs (path @ [''index.faiss''])"
    using write_file_other[OF assms(1), of "path @ [''index.faiss'']"] by simp
  moreover have "node_at fs' (path @ [''index.pkl'']) = node_at fs (path @ [''index.pkl''])"
    using write_file_other[OF assms(1), of "path @ [''index.pkl'']"] by simp
  ultimately show ?thesis
    using assms(2) by (simp add: load_local_Inr)
qed



section \<open>The index store replaces a whole index\<close>

lemma store_files_steps:
  assumes "store_files chunks index_dir fs = (Inr u, fs')"
  shows "\<exists>fs1 fs2 fs3.
    remove_existing (parse_path index_dir) fs = (Inr (), fs1) \<and>
    chunks \<noteq> [] \<and>
    save_local chunks (parse_path index_dir) fs2 = (Inr (), fs3) \<and>
    write_file OSError
      (parent_of (parse_path index_dir) @ [name_of (parse_path index_dir) @ ''_meta.txt''])
      (TextFile (meta_lines 0 chunks)) fs3 = (Inr u, fs')"
  using assms
  by (auto simp: store_files_def Let_def and_then_Inr from_texts_def split: if_splits)

lemma store_files_loads:
  assumes "store_files chunks index_dir fs = (Inr u, fs')"
  shows "load_local (parse_path index_dir) fs' = Inr chunks"
proof -
  from store_files_steps[OF assms] obtain fs2 fs3 where
    saved: "save_local chunks (parse_path index_dir) fs2 = (Inr (), fs3)" and
    mirrored: "write_file OSError
      (parent_of (parse_path index_dir) @ [name_of (parse_path index_dir) @ ''_meta.txt''])
      (TextFile (meta_lines 0 chunks)) fs3 = (Inr u, fs')"
    by blast
  have "load_local (parse_path index_dir) fs3 = Inr chunks"
    using saved by (rule save_local_loads)
  with mirrored show ?thesis
    by (rule write_file_keeps_index)
qed

lemma cache_store_in_faiss: "cache (snd (store_in_faiss chunks index_dir w)) = cache w"
  by (simp add: store_in_faiss_def split: prod.splits)

lemma files_store_in_faiss:
  "files (snd (store_in_faiss chunks index_dir w)) = snd (store_files chunks index_dir (files w))"
  by (simp add: store_in_faiss_def split: prod.splits)

lemma fst_store_in_faiss:
  "fst (store_in_faiss chunks index_dir w) = fst (store_files chunks index_dir (files w))"
  by (simp add: store_in_faiss_def split: prod.splits)

lemma store_in_faiss_loads:
  assumes "fst (store_in_faiss chunks index_dir w) = Inr ()"
  shows "load_local (parse_path index_dir) (files (snd (store_in_faiss chunks index_dir w)))
    = Inr chunks"
proof -
  obtain fs' where "store_files chunks index_dir (files w) = (Inr (), fs')"
    using assms by (cases "store_files chunks index_dir (files w)") (simp add: fst_store_in_faiss)
  then show ?thesis
    using store_files_loads[of chunks index_dir "files w" "()" fs']
    by (simp add: files_store_in_faiss)
qed

lemma load_after_store:
  assumes "fst (store_in_faiss chunks (''faiss_store/'' @ index_name) w) = Inr ()"
    and "cache w index_name = None"
  shows "fst (load_vectorstore index_name
           (snd (store_in_faiss chunks (''faiss_store/'' @ index_name) w))) = Inr (Some chunks)"
proof -
  let ?w' = "snd (store_in_faiss chunks (''faiss_store/'' @ index_name) w)"
  let ?path = "parse_path (''faiss_store/'' @ index_name)"
  have loads: "load_local ?path (files ?w') = Inr chunks"
    using assms(1) by (rule store_in_faiss_loads)
  then have "node_at (files ?w') (?path @ [''index.faiss'']) \<noteq> None"
    by (auto simp: load_local_Inr)
  then have "path_exists (files ?w') ?path"
    by (rule node_at_parent)
  moreover have "cache ?w' index_name = None"
    using assms(2) by (simp add: cache_store_in_faiss)
  ultimately show ?thesis
    using loads by (simp add: load_vectorstore_def Let_def)
qed




section \<open>The cache of loaded handles\<close>

lemma cache_process_uploaded_file:
  "cache (snd (process_uploaded_file tok transcript file_name w)) = cache w"
proof (cases "transcript = []")
  case True
  then show ?thesis by (simp add: process_uploaded_file_def)
next
  case False
  let ?r = "store_in_faiss (split_text_into_chunks tok transcript 300)
      (''faiss_store/'' @ str_replace '' '' ''_'' (str_replace ''.mp3'' [] file_name)) w"
  have "cache (snd ?r) = cache w" by (rule cache_store_in_faiss)
  then show ?thesis using False
    by (cases ?r) (auto simp: process_uploaded_file_def Let_def split: sum.splits)
qed

lemma load_vectorstore_cached:
  "cache w index_name = Some h \<Longrightarrow> load_vectorstore index_name w = (Inr h, w)"
  by (simp add: load_vectorstore_def)

lemma process_query_cached:
  assumes "cache w index_name = Some h" and "cache w' index_name = Some h"
  shows "fst (process_query env query index_name w') = fst (process_query env query index_name w)"
  using assms
  by (cases h) (simp_all add: process_query_def load_vectorstore_cached generate_pdf_def Let_def split: prod.splits)

text \<open>
  C9. Nothing in the program clears the table of \<open>st.cache_resource\<close>. A rebuild through
  \<open>process_uploaded_file\<close> leaves it as it was, so a name loaded before the rebuild still
  gets the handle cached then, and a query against it is answered exactly as it was
  before the rebuild. Only a name that is not in the table is loaded from the index just
  built.
\<close>

theorem rebuild_keeps_cached_handle:
  "(cache w index_name = Some h \<longrightarrow>
      fst (load_vectorstore index_name (snd (process_uploaded_file tok transcript file_name w)))
        = Inr h \<and>
      fst (process_query env query index_name (snd (process_uploaded_file tok transcript file_name w)))
        = fst (process_query env query index_name w)) \<and>
   (cache w index_name = None \<and>
    fst (store_in_faiss chunks (''faiss_store/'' @ index_name) w) = Inr () \<longrightarrow>
      fst (load_vectorstore index_name (snd (store_in_faiss chunks (''faiss_store/'' @ index_name) w)))
        = Inr (Some chunks))"
proof (intro conjI impI)
  assume c: "cache w index_name = Some h"
  let ?w' = "snd (process_uploaded_file tok transcript file_name w)"
  from c have c': "cache ?w' index_name = Some h"
    by (simp add: cache_process_uploaded_file)
  then show "fst (load_vectorstore index_name ?w') = Inr h"
    by (simp add: load_vectorstore_cached)
  from c c' show "fst (process_query env query index_name ?w') = fst (process_query env query index_name w)"
    by (rule process_query_cached)
next
  assume "cache w index_name = None \<and>
    fst (store_in_faiss chunks (''faiss_store/'' @ index_name) w) = Inr ()"
  then show "fst (load_vectorstore index_name (snd (store_in_faiss chunks (''faiss_store/'' @ index_name) w)))
        = Inr (Some chunks)"
    using load_after_store by blast
qed

theorem rebuild_keeps_cached_handle_witness:
  "cache (snd (process_query \<lparr>similarity_search = (\<lambda>docs q. take 4 docs), llm = (\<lambda>c. [])\<rparr> ''hello'' ''a'' (snd (process_uploaded_file length ''old'' ''a.mp3'' \<lparr>files = Map.empty, cache = Map.empty, llm_calls = [], pdf_calls = [], current_index = ''RES0215'', index_loaded = False\<rparr>)))) ''a'' = Some (Some [''old'']) \<and>
   fst (load_vectorstore ''a'' (snd (process_uploaded_file length ''new'' ''a.mp3'' (snd (process_query \<lparr>similarity_search = (\<lambda>docs q. take 4 docs), llm = (\<lambda>c. [])\<rparr> ''hello'' ''a'' (snd (process_uploaded_file length ''old'' ''a.mp3'' \<lparr>files = Map.empty, cache = Map.empty, llm_calls = [], pdf_calls = [], current_index = ''RES0215'', index_loaded = False\<rparr>)))))))
     = Inr (Some [''old'']) \<and>
   load_local (parse_path ''faiss_store/a'')
     (files (snd (process_uploaded_file length ''new'' ''a.mp3'' (snd (process_query \<lparr>similarity_search = (\<lambda>docs q. take 4 docs), llm = (\<lambda>c. [])\<rparr> ''hello'' ''a'' (snd (process_uploaded_file length ''old'' ''a.mp3'' \<lparr>files = Map.empty, cache = Map.empty, llm_calls = [], pdf_calls = [], current_index = ''RES0215'', index_loaded = False\<rparr>))))))) = Inr [''new''] \<and>
   cache \<lparr>files = Map.empty, cache = Map.empty, llm_calls = [], pdf_calls = [], current_index = ''RES0215'', index_loaded = False\<rparr> ''a'' = None \<and>
   fst (store_in_faiss [''new''] (''faiss_store/'' @ ''a'') \<lparr>files = Map.empty, cache = Map.empty, llm_calls = [], pdf_calls = [], current_index = ''RES0215'', index_loaded = False\<rparr>) = Inr () \<and>
   fst (load_vectorstore ''a'' (snd (store_in_faiss [''new''] (''faiss_store/'' @ ''a'') \<lparr>files = Map.empty, cache = Map.empty, llm_calls = [], pdf_calls = [], current_index = ''RES0215'', index_loaded = False\<rparr>)))
     = Inr (Some [''new''])"
proof -
  let ?w2 = "(snd (process_query \<lparr>similarity_search = (\<lambda>docs q. take 4 docs), llm = (\<lambda>c. [])\<rparr> ''hello'' ''a'' (snd (process_uploaded_file length ''old'' ''a.mp3'' \<lparr>files = Map.empty, cache = Map.empty, llm_calls = [], pdf_calls = [], current_index = ''RES0215'', index_loaded = False\<rparr>))))"
  let ?w0 = "\<lparr>files = Map.empty, cache = Map.empty, llm_calls = [], pdf_calls = [], current_index = ''RES0215'', index_loaded = False\<rparr>"
  let ?env = "\<lparr>similarity_search = (\<lambda>docs q. take 4 docs), llm = (\<lambda>c. [])\<rparr>"
  have c: "cache ?w2 ''a'' = Some (Some [''old''])"
    by code_simp
  have n: "cache ?w0 ''a'' = None"
    by simp
  have ok: "fst (store_in_faiss [''new''] (''faiss_store/'' @ ''a'') ?w0) = Inr ()"
    by code_simp
  have d: "load_local (parse_path ''faiss_store/a'')
     (files (snd (process_uploaded_file length ''new'' ''a.mp3'' ?w2))) = Inr [''new'']"
    by code_simp
  note r = rebuild_keeps_cached_handle[of _ "''a''" _ length "''new''" "''a.mp3''" ?env "''hello''" "[''new'']"]
  from r[of ?w2 "Some [''old'']"] c
  have 1: "fst (load_vectorstore ''a'' (snd (process_uploaded_file length ''new'' ''a.mp3'' ?w2)))
     = Inr (Some [''old''])"
    by blast
  from r[of ?w0 None] n ok
  have 2: "fst (load_vectorstore ''a'' (snd (store_in_faiss [''new''] (''faiss_store/'' @ ''a'') ?w0)))
     = Inr (Some [''new''])"
    by blast
  from c 1 d n ok 2 show ?thesis by blast
qed

text \<open>
  The scenario that refutes the invalidation: a file is processed, a query loads its
  index, a file of the same name is processed again, and the next query still draws its
  sources from the first transcript while the directory holds the second.
\<close>

theorem stale_handle_counterexample:
  "load_local (parse_path ''faiss_store/a'')
     (files (snd (process_uploaded_file length ''new'' ''a.mp3'' (snd (process_query \<lparr>similarity_search = (\<lambda>docs q. take 4 docs), llm = (\<lambda>c. [])\<rparr> ''hello'' ''a'' (snd (process_uploaded_file length ''old'' ''a.mp3'' \<lparr>files = Map.empty, cache = Map.empty, llm_calls = [], pdf_calls = [], current_index = ''RES0215'', index_loaded = False\<rparr>))))))) = Inr [''new''] \<and>
   map_sum id sources (fst (process_query \<lparr>similarity_search = (\<lambda>docs q. take 4 docs), llm = (\<lambda>c. [])\<rparr> ''hello'' ''a''
     (snd (process_uploaded_file length ''new'' ''a.mp3'' (snd (process_query \<lparr>similarity_search = (\<lambda>docs q. take 4 docs), llm = (\<lambda>c. [])\<rparr> ''hello'' ''a'' (snd (process_uploaded_file length ''old'' ''a.mp3'' \<lparr>files = Map.empty, cache = Map.empty, llm_calls = [], pdf_calls = [], current_index = ''RES0215'', index_loaded = False\<rparr>)))))))) = Inr [''old'']"
  by code_simp




section \<open>The token budget of the chunks\<close>

text \<open>
  C1. The program measures the accumulator before stripping it and emits it stripped.
  On the text \<open>"Hi.\n\n tremendous"\<close> with budget 3, for a tokenizer that counts the
  first candidate within the budget and the second over it, the chunks are \<open>"Hi."\<close> and
  \<open>"tremendous"\<close>; where the tokenizer counts \<open>" tremendous"\<close> as one token and
  \<open>"tremendous"\<close> as four, as the encoding of gpt-3.5-turbo does, the second chunk is
  over the budget, and the one paragraph it comes from is within it.
\<close>

theorem stripped_chunk_over_budget:
  assumes "int (tok (para_sep @ ''Hi.'')) \<le> 3"
    and "3 < int (tok (para_sep @ ''Hi.'' @ para_sep @ '' tremendous''))"
    and "tok '' tremendous'' = 1"
    and "tok ''tremendous'' = 4"
  shows "split_text_into_chunks tok (''Hi.'' @ para_sep @ '' tremendous'') 3
           = [''Hi.'', ''tremendous''] \<and>
         3 < int (tok ''tremendous'') \<and>
         (\<forall>p. p \<in> set (str_split para_sep (''Hi.'' @ para_sep @ '' tremendous'')) \<and>
              ''tremendous'' = strip p \<longrightarrow> int (tok p) \<le> 3)"
proof -
  have paras: "str_split para_sep (''Hi.'' @ para_sep @ '' tremendous'') = [''Hi.'', '' tremendous'']"
    by (simp add: para_sep_def)
  have s1: "strip (para_sep @ ''Hi.'') = ''Hi.''"
    by (simp add: strip_def para_sep_def isspace_def)
  have s2: "strip '' tremendous'' = ''tremendous''"
    by (simp add: strip_def isspace_def)
  have s3: "strip ''Hi.'' = ''Hi.''"
    by (simp add: strip_def isspace_def)
  have "chunk_loop tok 3 [''Hi.'', '' tremendous''] [] [] = ([''Hi.''], '' tremendous'')"
    using assms(1,2) by (simp add: Let_def s1)
  with paras have "split_text_into_chunks tok (''Hi.'' @ para_sep @ '' tremendous'') 3
      = [''Hi.'', ''tremendous'']"
    by (simp add: split_text_into_chunks_def s2)
  moreover have "3 < int (tok ''tremendous'')"
    using assms(4) by simp
  moreover have "\<forall>p. p \<in> set (str_split para_sep (''Hi.'' @ para_sep @ '' tremendous'')) \<and>
      ''tremendous'' = strip p \<longrightarrow> int (tok p) \<le> 3"
  proof (intro allI impI)
    fix p
    assume h: "p \<in> set (str_split para_sep (''Hi.'' @ para_sep @ '' tremendous'')) \<and>
      ''tremendous'' = strip p"
    have other: "''tremendous'' \<noteq> strip ''Hi.''"
      by (simp add: s3)
    from h have "p \<in> set (str_split para_sep (''Hi.'' @ para_sep @ '' tremendous''))"
      by blast
    then have "p \<in> set [''Hi.'', '' tremendous'']"
      by (simp only: paras)
    then have "p = ''Hi.'' \<or> p = '' tremendous''"
      by simp
    moreover from h have "''tremendous'' = strip p"
      by blast
    ultimately have "p = '' tremendous''"
      using other by blast
    with assms(3) show "int (tok p) \<le> 3"
      by simp
  qed
  ultimately show ?thesis by blast
qed

theorem stripped_chunk_over_budget_witness:
  "int ((\<lambda>s. if s = '' tremendous'' then 1 else if s = ''tremendous'' then 4
               else if s = para_sep @ ''Hi.'' then 3 else 5) (para_sep @ ''Hi.'')) \<le> 3 \<and>
   3 < int ((\<lambda>s. if s = '' tremendous'' then 1 else if s = ''tremendous'' then 4
               else if s = para_sep @ ''Hi.'' then 3 else 5)
             (para_sep @ ''Hi.'' @ para_sep @ '' tremendous'')) \<and>
   split_text_into_chunks
     (\<lambda>s. if s = '' tremendous'' then 1 else if s = ''tremendous'' then 4
               else if s = para_sep @ ''Hi.'' then 3 else 5)
     (''Hi.'' @ para_sep @ '' tremendous'') 3 = [''Hi.'', ''tremendous'']"
proof -
  let ?tok = "\<lambda>s. if s = '' tremendous'' then 1 else if s = ''tremendous'' then 4
               else if s = para_sep @ ''Hi.'' then 3 else (5::nat)"
  have fits: "int (?tok (para_sep @ ''Hi.'')) \<le> 3"
    by (simp add: para_sep_def)
  have over: "3 < int (?tok (para_sep @ ''Hi.'' @ para_sep @ '' tremendous''))"
    by (simp add: para_sep_def)
  have one: "?tok '' tremendous'' = 1"
    by simp
  have four: "?tok ''tremendous'' = 4"
    by simp
  from stripped_chunk_over_budget[of ?tok, OF fits over one four] fits over
  show ?thesis by blast
qed

section \<open>The chunks cover the paragraphs\<close>

lemma strip_Nil: "strip [] = []"
  by (simp add: strip_def)

lemma strip_para_sep_append: "strip (para_sep @ s) = strip s"
  by (simp add: strip_def para_sep_def isspace_LF)

lemma str_join_snoc: "g \<noteq> [] \<Longrightarrow> str_join sep (g @ [x]) = str_join sep g @ sep @ x"
  by (induction sep g rule: str_join.induct) auto

lemma flush_group:
  assumes "g \<noteq> []"
    and "cur = str_join para_sep g \<or> cur = para_sep @ str_join para_sep g"
  shows "filter (\<lambda>c. c \<noteq> []) (if cur \<noteq> [] then chunks @ [strip cur] else chunks) =
         filter (\<lambda>c. c \<noteq> []) (chunks @ [strip (str_join para_sep g)])"
proof (cases "cur = []")
  case True
  with assms(2) have "str_join para_sep g = []" by auto
  with True show ?thesis by (simp add: strip_Nil)
next
  case False
  from assms(2) have "strip cur = strip (str_join para_sep g)"
    by (auto simp: strip_para_sep_append)
  with False show ?thesis by simp
qed

lemma chunk_loop_groups:
  "chunk_loop tok M ps chunks cur = (chunks', cur') \<Longrightarrow>
   [] \<notin> set gs \<Longrightarrow>
   filter (\<lambda>c. c \<noteq> []) chunks = filter (\<lambda>c. c \<noteq> []) (map (\<lambda>g. strip (str_join para_sep g)) gs) \<Longrightarrow>
   (g = [] \<and> cur = []) \<or>
     (g \<noteq> [] \<and> (cur = str_join para_sep g \<or> cur = para_sep @ str_join para_sep g)) \<Longrightarrow>
   \<exists>gs' g'. concat gs' @ g' = concat gs @ g @ ps \<and> [] \<notin> set gs' \<and>
     filter (\<lambda>c. c \<noteq> []) chunks' = filter (\<lambda>c. c \<noteq> []) (map (\<lambda>g. strip (str_join para_sep g)) gs') \<and>
     ((g' = [] \<and> cur' = []) \<or>
      (g' \<noteq> [] \<and> (cur' = str_join para_sep g' \<or> cur' = para_sep @ str_join para_sep g')))"
proof (induction ps arbitrary: chunks cur gs g)
  case Nil
  then show ?case by auto
next
  case (Cons para ps)
  let ?sj = "\<lambda>g. strip (str_join para_sep g)"
  show ?case
  proof (cases "int (tok (cur @ para_sep @ para)) > M")
    case True
    let ?chunks = "if cur \<noteq> [] then chunks @ [strip cur] else chunks"
    from True Cons.prems(1) have run: "chunk_loop tok M ps ?chunks para = (chunks', cur')"
      by (simp add: Let_def)
    let ?gs = "if g = [] then gs else gs @ [g]"
    have 1: "[] \<notin> set ?gs"
      using Cons.prems(2) by simp
    have 2: "filter (\<lambda>c. c \<noteq> []) ?chunks = filter (\<lambda>c. c \<noteq> []) (map ?sj ?gs)"
    proof (cases "g = []")
      case True
      with Cons.prems(3,4) show ?thesis by simp
    next
      case False
      with Cons.prems(4) have "cur = str_join para_sep g \<or> cur = para_sep @ str_join para_sep g"
        by blast
      from flush_group[OF False this, of chunks] Cons.prems(3) False show ?thesis
        by simp
    qed
    have 3: "([para] = [] \<and> para = []) \<or>
       ([para] \<noteq> [] \<and> (para = str_join para_sep [para] \<or> para = para_sep @ str_join para_sep [para]))"
      by simp
    from Cons.IH[OF run 1 2 3] obtain gs' g' where
      "concat gs' @ g' = concat ?gs @ [para] @ ps" and
      rest: "[] \<notin> set gs'"
        "filter (\<lambda>c. c \<noteq> []) chunks' = filter (\<lambda>c. c \<noteq> []) (map ?sj gs')"
        "(g' = [] \<and> cur' = []) \<or>
         (g' \<noteq> [] \<and> (cur' = str_join para_sep g' \<or> cur' = para_sep @ str_join para_sep g'))"
      by blast
    then have "concat gs' @ g' = concat gs @ g @ para # ps"
      by simp
    with rest show ?thesis by blast
  next
    case False
    with Cons.prems(1) have run: "chunk_loop tok M ps chunks (cur @ para_sep @ para) = (chunks', cur')"
      by (simp add: Let_def)
    have 3: "(g @ [para] = [] \<and> cur @ para_sep @ para = []) \<or>
       (g @ [para] \<noteq> [] \<and> (cur @ para_sep @ para = str_join para_sep (g @ [para]) \<or>
          cur @ para_sep @ para = para_sep @ str_join para_sep (g @ [para])))"
    proof (cases "g = []")
      case True
      with Cons.prems(4) show ?thesis by simp
    next
      case False
      with Cons.prems(4) show ?thesis by (auto simp: str_join_snoc)
    qed
    from Cons.IH[OF run Cons.prems(2) Cons.prems(3) 3] obtain gs' g' where
      "concat gs' @ g' = concat gs @ (g @ [para]) @ ps" and
      rest: "[] \<notin> set gs'"
        "filter (\<lambda>c. c \<noteq> []) chunks' = filter (\<lambda>c. c \<noteq> []) (map ?sj gs')"
        "(g' = [] \<and> cur' = []) \<or>
         (g' \<noteq> [] \<and> (cur' = str_join para_sep g' \<or> cur' = para_sep @ str_join para_sep g'))"
      by blast
    then have "concat gs' @ g' = concat gs @ g @ para # ps"
      by simp
    with rest show ?thesis by blast
  qed
qed

text \<open>
  C2. The paragraphs of the text fall into consecutive groups, in order, every paragraph
  in exactly one group; a chunk is the join of a group with the white space at its two
  ends stripped, and the non-empty chunks are, in order, the non-empty stripped joins
  of the groups. A group whose join is blank gives an empty chunk or none. White space
  at the ends of a group is therefore lost, and the paragraph sequence is recovered up
  to that only.
\<close>

theorem chunks_cover_paragraphs:
  "\<exists>groups. concat groups = str_split para_sep text \<and> [] \<notin> set groups \<and>
     filter (\<lambda>c. c \<noteq> []) (split_text_into_chunks tok text max_tokens) =
     filter (\<lambda>c. c \<noteq> []) (map (\<lambda>g. strip (str_join para_sep g)) groups)"
proof -
  let ?sj = "\<lambda>g. strip (str_join para_sep g)"
  obtain chunks cur where run:
    "chunk_loop tok max_tokens (str_split para_sep text) [] [] = (chunks, cur)"
    by (cases "chunk_loop tok max_tokens (str_split para_sep text) [] []") auto
  from chunk_loop_groups[OF run, of "[]" "[]"] obtain gs g where
    cover: "concat gs @ g = str_split para_sep text" and
    gs: "[] \<notin> set gs" and
    chunks: "filter (\<lambda>c. c \<noteq> []) chunks = filter (\<lambda>c. c \<noteq> []) (map ?sj gs)" and
    cur: "(g = [] \<and> cur = []) \<or>
         (g \<noteq> [] \<and> (cur = str_join para_sep g \<or> cur = para_sep @ str_join para_sep g))"
    by auto
  have result: "split_text_into_chunks tok text max_tokens =
      (if cur \<noteq> [] then chunks @ [strip cur] else chunks)"
    using run by (simp add: split_text_into_chunks_def)
  show ?thesis
  proof (cases "g = []")
    case True
    with cur have "cur = []" by simp
    with result chunks cover gs True show ?thesis by auto
  next
    case False
    with cur have "cur = str_join para_sep g \<or> cur = para_sep @ str_join para_sep g"
      by blast
    from flush_group[OF False this, of chunks] chunks result
    have "filter (\<lambda>c. c \<noteq> []) (split_text_into_chunks tok text max_tokens) =
      filter (\<lambda>c. c \<noteq> []) (map ?sj (gs @ [g]))"
      by simp
    moreover have "concat (gs @ [g]) = str_split para_sep text"
      using cover by simp
    moreover have "[] \<notin> set (gs @ [g])"
      using gs False by simp
    ultimately show ?thesis by blast
  qed
qed

text \<open>
  A text file that ends in a line feed: its one paragraph is \<open>"Hello.\n"\<close>, the chunk is
  \<open>"Hello."\<close>, and splitting the chunk at the separator does not give the paragraph back.
\<close>

theorem chunks_strip_counterexample:
  "split_text_into_chunks length (''Hello.'' @ [CHR 0x0A]) 300 = [''Hello.''] \<and>
   str_split para_sep (''Hello.'' @ [CHR 0x0A]) = [''Hello.'' @ [CHR 0x0A]] \<and>
   concat (map (str_split para_sep) (split_text_into_chunks length (''Hello.'' @ [CHR 0x0A]) 300))
     \<noteq> str_split para_sep (''Hello.'' @ [CHR 0x0A])"
  by code_simp

end
